theory Spec2Isabelle
  imports Complex_Main
begin

section \<open>JavaScript values that can be cached\<close>

text \<open>
  The cache stores \<^verbatim>\<open>JSON.stringify(value)\<close> in a TEXT column and hands back
  \<^verbatim>\<open>JSON.parse\<close> of that text (src/models/cacheItem.js). The values are modelled by the
  JSON data model. Numbers are the integers among the JavaScript numbers (fractions,
  negative zero and the rounding of doubles are left out); strings are lists of one-byte
  code units. The property list of an object stands for its properties in enumeration
  order. The JavaScript value \<^verbatim>\<open>undefined\<close> is not a JSON value: an
  argument that may be \<^verbatim>\<open>undefined\<close> has an option type, with \<open>None\<close> for it.
\<close>

datatype json =
    JNull
  | JBool bool
  | JNum int
  | JStr string
  | JArr "json list"
  | JObj "(string \<times> json) list"

text \<open>A JavaScript \<^verbatim>\<open>Error\<close> object, identified by its message.\<close>

datatype js_error = Error (message: string)

subsection \<open>\<^verbatim>\<open>JSON.stringify\<close>\<close>

definition digit_char :: "nat \<Rightarrow> char" where
  "digit_char d = char_of (48 + d)"

fun digits :: "nat \<Rightarrow> string" where
  "digits n = (if n < 10 then [digit_char n] else digits (n div 10) @ [digit_char (n mod 10)])"

declare digits.simps [simp del]

definition Number_toString :: "int \<Rightarrow> string" where
  "Number_toString n = (if n < 0 then CHR ''-'' # digits (nat (- n)) else digits (nat n))"

definition hex_char :: "nat \<Rightarrow> char" where
  "hex_char d = (if d < 10 then char_of (48 + d) else char_of (87 + d))"

text \<open>
  QuoteJSONString: the quotation mark, the reverse solidus and the control characters are
  escaped, every other code unit is copied.
\<close>

definition escape_char :: "char \<Rightarrow> string" where
  "escape_char c =
     (if c = CHR 0x08 then [CHR 0x5C, CHR ''b'']
      else if c = CHR 0x09 then [CHR 0x5C, CHR ''t'']
      else if c = CHR 0x0A then [CHR 0x5C, CHR ''n'']
      else if c = CHR 0x0C then [CHR 0x5C, CHR ''f'']
      else if c = CHR 0x0D then [CHR 0x5C, CHR ''r'']
      else if c = CHR 0x22 then [CHR 0x5C, CHR 0x22]
      else if c = CHR 0x5C then [CHR 0x5C, CHR 0x5C]
      else if (of_char c :: nat) < 32 then
        [CHR 0x5C, CHR ''u'', CHR ''0'', CHR ''0'',
         hex_char ((of_char c :: nat) div 16), hex_char ((of_char c :: nat) mod 16)]
      else [c])"

definition QuoteJSONString :: "string \<Rightarrow> string" where
  "QuoteJSONString s = CHR 0x22 # concat (map escape_char s) @ [CHR 0x22]"

fun JSON_stringify :: "json \<Rightarrow> string"
  and stringify_elems :: "json list \<Rightarrow> string"
  and stringify_members :: "(string \<times> json) list \<Rightarrow> string" where
  "JSON_stringify JNull = ''null''"
| "JSON_stringify (JBool b) = (if b then ''true'' else ''false'')"
| "JSON_stringify (JNum n) = Number_toString n"
| "JSON_stringify (JStr s) = QuoteJSONString s"
| "JSON_stringify (JArr xs) = CHR ''['' # stringify_elems xs @ '']''"
| "JSON_stringify (JObj kvs) = CHR ''{'' # stringify_members kvs @ ''}''"
| "stringify_elems [] = []"
| "stringify_elems [x] = JSON_stringify x"
| "stringify_elems (x # y # ys) = JSON_stringify x @ CHR '','' # stringify_elems (y # ys)"
| "stringify_members [] = []"
| "stringify_members [(k, v)] = QuoteJSONString k @ CHR '':'' # JSON_stringify v"
| "stringify_members ((k, v) # p # ps) =
     QuoteJSONString k @ CHR '':'' # JSON_stringify v @ CHR '','' # stringify_members (p # ps)"

subsection \<open>\<^verbatim>\<open>JSON.parse\<close>\<close>

definition is_ws :: "char \<Rightarrow> bool" where
  "is_ws c = (c = CHR 0x20 \<or> c = CHR 0x09 \<or> c = CHR 0x0A \<or> c = CHR 0x0D)"

definition skip_ws :: "string \<Rightarrow> string" where
  "skip_ws cs = dropWhile is_ws cs"

definition is_digit :: "char \<Rightarrow> bool" where
  "is_digit c = (48 \<le> (of_char c :: nat) \<and> (of_char c :: nat) \<le> 57)"

definition digit_val :: "char \<Rightarrow> nat" where
  "digit_val c = of_char c - 48"

definition hex_val :: "char \<Rightarrow> nat option" where
  "hex_val c =
     (let n = (of_char c :: nat) in
      if 48 \<le> n \<and> n \<le> 57 then Some (n - 48)
      else if 97 \<le> n \<and> n \<le> 102 then Some (n - 87)
      else if 65 \<le> n \<and> n \<le> 70 then Some (n - 55)
      else None)"

definition unescape :: "char \<Rightarrow> char option" where
  "unescape e =
     (if e = CHR 0x22 then Some (CHR 0x22)
      else if e = CHR 0x5C then Some (CHR 0x5C)
      else if e = CHR ''/'' then Some (CHR ''/'')
      else if e = CHR ''b'' then Some (CHR 0x08)
      else if e = CHR ''f'' then Some (CHR 0x0C)
      else if e = CHR ''n'' then Some (CHR 0x0A)
      else if e = CHR ''r'' then Some (CHR 0x0D)
      else if e = CHR ''t'' then Some (CHR 0x09)
      else None)"

text \<open>
  The characters of a string literal after its opening quotation mark, up to and including
  the closing one. An escape \<^verbatim>\<open>\uXXXX\<close> of a code unit above 0xFF denotes a string
  outside the model and is not accepted.
\<close>

fun parse_chars :: "string \<Rightarrow> (string \<times> string) option" where
  "parse_chars [] = None"
| "parse_chars (c # cs) =
     (if c = CHR 0x22 then Some ([], cs)
      else if c = CHR 0x5C then
        (case cs of
           [] \<Rightarrow> None
         | e # cs1 \<Rightarrow>
             if e = CHR ''u'' then
               (case cs1 of
                  a # b # c3 # d # cs2 \<Rightarrow>
                    (case (hex_val a, hex_val b, hex_val c3, hex_val d) of
                       (Some x3, Some x2, Some x1, Some x0) \<Rightarrow>
                         if x3 = 0 \<and> x2 = 0 then
                           (case parse_chars cs2 of
                              None \<Rightarrow> None
                            | Some (s, r) \<Rightarrow> Some (char_of (16 * x1 + x0) # s, r))
                         else None
                     | _ \<Rightarrow> None)
                | _ \<Rightarrow> None)
             else
               (case unescape e of
                  None \<Rightarrow> None
                | Some ch \<Rightarrow>
                    (case parse_chars cs1 of
                       None \<Rightarrow> None
                     | Some (s, r) \<Rightarrow> Some (ch # s, r))))
      else if (of_char c :: nat) < 32 then None
      else (case parse_chars cs of
              None \<Rightarrow> None
            | Some (s, r) \<Rightarrow> Some (c # s, r)))"

text \<open>
  A number literal: an optional minus sign and an integer part without a leading zero.
  A literal with a fraction or an exponent denotes a number outside the model and is not
  accepted.
\<close>

definition parse_nat :: "string \<Rightarrow> (nat \<times> string) option" where
  "parse_nat cs =
     (let ds = takeWhile is_digit cs; r = dropWhile is_digit cs in
      if ds = [] then None
      else if hd ds = CHR ''0'' \<and> 1 < length ds then None
      else if r \<noteq> [] \<and> (hd r = CHR ''.'' \<or> hd r = CHR ''e'' \<or> hd r = CHR ''E'') then None
      else Some (foldl (\<lambda>a c. 10 * a + digit_val c) 0 ds, r))"

definition parse_number :: "string \<Rightarrow> (json \<times> string) option" where
  "parse_number cs =
     (case cs of
        [] \<Rightarrow> None
      | c # r \<Rightarrow>
          if c = CHR ''-'' then
            (case parse_nat r of None \<Rightarrow> None | Some (n, r') \<Rightarrow> Some (JNum (- int n), r'))
          else
            (case parse_nat cs of None \<Rightarrow> None | Some (n, r') \<Rightarrow> Some (JNum (int n), r')))"

definition strip_prefix :: "string \<Rightarrow> string \<Rightarrow> string option" where
  "strip_prefix p cs = (if take (length p) cs = p then Some (drop (length p) cs) else None)"

text \<open>
  CreateDataProperty on the object under construction: a name that is already present
  keeps its place and takes the new value.
\<close>

fun define_property :: "string \<Rightarrow> json \<Rightarrow> (string \<times> json) list \<Rightarrow> (string \<times> json) list" where
  "define_property k v [] = [(k, v)]"
| "define_property k v (p # ps) =
     (if fst p = k then (k, v) # ps else p # define_property k v ps)"

text \<open>
  The recursive-descent parser. The first argument bounds the number of nested calls;
  \<open>JSON_parse\<close> starts it with a bound that no text exhausts (lemma \<open>JSON_parse_bound\<close>).
\<close>

fun parse_value :: "nat \<Rightarrow> string \<Rightarrow> (json \<times> string) option"
  and parse_elems :: "nat \<Rightarrow> json list \<Rightarrow> string \<Rightarrow> (json \<times> string) option"
  and parse_members :: "nat \<Rightarrow> (string \<times> json) list \<Rightarrow> string \<Rightarrow> (json \<times> string) option" where
  "parse_value 0 cs = None"
| "parse_value (Suc n) cs =
     (case skip_ws cs of
        [] \<Rightarrow> None
      | c # r \<Rightarrow>
          if c = CHR ''n'' then
            (case strip_prefix ''ull'' r of None \<Rightarrow> None | Some r' \<Rightarrow> Some (JNull, r'))
          else if c = CHR ''t'' then
            (case strip_prefix ''rue'' r of None \<Rightarrow> None | Some r' \<Rightarrow> Some (JBool True, r'))
          else if c = CHR ''f'' then
            (case strip_prefix ''alse'' r of None \<Rightarrow> None | Some r' \<Rightarrow> Some (JBool False, r'))
          else if c = CHR 0x22 then
            (case parse_chars r of None \<Rightarrow> None | Some (s, r') \<Rightarrow> Some (JStr s, r'))
          else if c = CHR ''['' then
            (case skip_ws r of
               [] \<Rightarrow> None
             | c' # r' \<Rightarrow> if c' = CHR '']'' then Some (JArr [], r') else parse_elems n [] r)
          else if c = CHR ''{'' then
            (case skip_ws r of
               [] \<Rightarrow> None
             | c' # r' \<Rightarrow> if c' = CHR ''}'' then Some (JObj [], r') else parse_members n [] r)
          else parse_number (c # r))"
| "parse_elems 0 acc cs = None"
| "parse_elems (Suc n) acc cs =
     (case parse_value n cs of
        None \<Rightarrow> None
      | Some (v, r) \<Rightarrow>
          (case skip_ws r of
             [] \<Rightarrow> None
           | c # r' \<Rightarrow>
               if c = CHR '','' then parse_elems n (acc @ [v]) r'
               else if c = CHR '']'' then Some (JArr (acc @ [v]), r')
               else None))"
| "parse_members 0 acc cs = None"
| "parse_members (Suc n) acc cs =
     (case skip_ws cs of
        [] \<Rightarrow> None
      | q # r \<Rightarrow>
          if q = CHR 0x22 then
            (case parse_chars r of
               None \<Rightarrow> None
             | Some (k, r1) \<Rightarrow>
                 (case skip_ws r1 of
                    [] \<Rightarrow> None
                  | c # r2 \<Rightarrow>
                      if c = CHR '':'' then
                        (case parse_value n r2 of
                           None \<Rightarrow> None
                         | Some (v, r3) \<Rightarrow>
                             (case skip_ws r3 of
                                [] \<Rightarrow> None
                              | c' # r4 \<Rightarrow>
                                  if c' = CHR '','' then parse_members n (define_property k v acc) r4
                                  else if c' = CHR ''}'' then Some (JObj (define_property k v acc), r4)
                                  else None))
                      else None))
          else None)"

text \<open>
  \<^verbatim>\<open>JSON.parse(text)\<close>: the value, or a SyntaxError. The message of the SyntaxError
  depends on the JavaScript engine; one fixed text stands for it.
\<close>

definition SyntaxError :: js_error where
  "SyntaxError = Error ''Unexpected token in JSON''"

definition JSON_parse :: "string \<Rightarrow> js_error + json" where
  "JSON_parse text =
     (case parse_value (2 * length text + 1) text of
        None \<Rightarrow> Inl SyntaxError
      | Some (v, r) \<Rightarrow> if skip_ws r = [] then Inr v else Inl SyntaxError)"

section \<open>The CacheItem model (src/models/cacheItem.js)\<close>

text \<open>
  One row of the table: the primary key, the TEXT column behind the attribute
  \<^verbatim>\<open>value\<close> (what \<^verbatim>\<open>getDataValue('value')\<close> reads) and the timestamp in
  milliseconds since the epoch.
\<close>

record CacheItem =
  key :: string
  raw_value :: string
  timestamp :: int

type_synonym table = "CacheItem list"

text \<open>The custom setter and getter of the attribute \<^verbatim>\<open>value\<close>.\<close>

definition value_set :: "json \<Rightarrow> string" where
  "value_set v = JSON_stringify v"

definition value_get :: "CacheItem \<Rightarrow> js_error + json" where
  "value_get item = JSON_parse (raw_value item)"

subsection \<open>The calls on the store\<close>

text \<open>
  Every call on the model is a query against the database and may be rejected. Which
  calls are rejected, and with what message, is an argument of the service's operations.
\<close>

datatype store_call = Count | FindByPk | FindOne | Create | Update | Destroy

type_synonym faults = "store_call \<Rightarrow> string option"

definition no_faults :: faults where
  "no_faults = (\<lambda>c. None)"

definition query :: "faults \<Rightarrow> store_call \<Rightarrow> 'a \<Rightarrow> js_error + 'a" where
  "query f c r = (case f c of Some m \<Rightarrow> Inl (Error m) | None \<Rightarrow> Inr r)"

definition CacheItem_count :: "faults \<Rightarrow> (CacheItem \<Rightarrow> bool) \<Rightarrow> table \<Rightarrow> js_error + nat" where
  "CacheItem_count f wh rows = query f Count (length (filter wh rows))"

definition CacheItem_findByPk :: "faults \<Rightarrow> string \<Rightarrow> table \<Rightarrow> js_error + CacheItem option" where
  "CacheItem_findByPk f k rows = query f FindByPk (find (\<lambda>r. key r = k) rows)"

text \<open>An insert; the primary key rejects a second row with the same key.\<close>

definition CacheItem_create :: "faults \<Rightarrow> string \<Rightarrow> json \<Rightarrow> int \<Rightarrow> table \<Rightarrow> js_error + table" where
  "CacheItem_create f k v t rows =
     (case f Create of
        Some m \<Rightarrow> Inl (Error m)
      | None \<Rightarrow>
          if k \<in> key ` set rows then Inl (Error ''Validation error'')
          else Inr (rows @ [\<lparr>key = k, raw_value = value_set v, timestamp = t\<rparr>]))"

text \<open>\<^verbatim>\<open>item.update({value, timestamp})\<close>: an UPDATE of the row with the item's key.\<close>

definition item_update :: "faults \<Rightarrow> CacheItem \<Rightarrow> json \<Rightarrow> int \<Rightarrow> table \<Rightarrow> js_error + table" where
  "item_update f item v t rows =
     query f Update
       (map (\<lambda>r. if key r = key item then r\<lparr>raw_value := value_set v, timestamp := t\<rparr> else r) rows)"

text \<open>\<^verbatim>\<open>destroy({where})\<close>: the number of rows deleted, and the rows that stay.\<close>

definition CacheItem_destroy :: "faults \<Rightarrow> (CacheItem \<Rightarrow> bool) \<Rightarrow> table \<Rightarrow> js_error + nat \<times> table" where
  "CacheItem_destroy f wh rows =
     query f Destroy (length (filter wh rows), filter (\<lambda>r. \<not> wh r) rows)"

datatype direction = ASC | DESC

text \<open>\<^verbatim>\<open>findOne({order: [['timestamp', dir]]})\<close>: the first row in that order.\<close>

definition CacheItem_findOne :: "faults \<Rightarrow> direction \<Rightarrow> table \<Rightarrow> js_error + CacheItem option" where
  "CacheItem_findOne f dir rows =
     query f FindOne
       (case (case dir of ASC \<Rightarrow> sort_key timestamp rows | DESC \<Rightarrow> rev (sort_key timestamp rows)) of
          [] \<Rightarrow> None
        | r # rs \<Rightarrow> Some r)"

section \<open>The cache service (src/services/cacheService.js)\<close>

record CacheService =
  maxSize :: int


text \<open>
  Every operation is a \<^verbatim>\<open>try\<close> block with a \<^verbatim>\<open>catch\<close> that throws a new Error whose
  message is a prefix and the message of the error caught. The \<open>_try\<close> definitions are the
  blocks; the operations add the handler. An operation that writes returns its result and
  the table after it. A key is a string, or \<open>None\<close> when it is absent; the clock reading
  of \<^verbatim>\<open>new Date()\<close> and \<^verbatim>\<open>Date.now()\<close> is the argument \<open>now\<close>.
\<close>

definition wrap :: "string \<Rightarrow> js_error \<Rightarrow> js_error" where
  "wrap prefix e = Error (prefix @ message e)"

definition set_try ::
  "CacheService \<Rightarrow> faults \<Rightarrow> int \<Rightarrow> string option \<Rightarrow> json option \<Rightarrow> table \<Rightarrow> (js_error + bool) \<times> table" where
  "set_try svc f now k_opt v_opt rows =
     (case k_opt of
        None \<Rightarrow> (Inl (Error ''Key is required''), rows)
      | Some k \<Rightarrow>
          if k = [] then (Inl (Error ''Key is required''), rows)
          else
            (case v_opt of
               None \<Rightarrow> (Inl (Error ''Value is required''), rows)
             | Some v \<Rightarrow>
                 (case CacheItem_count f (\<lambda>r. True) rows of
                    Inl e \<Rightarrow> (Inl e, rows)
                  | Inr count \<Rightarrow>
                      (case CacheItem_findByPk f k rows of
                         Inl e \<Rightarrow> (Inl e, rows)
                       | Inr existingItem \<Rightarrow>
                           if maxSize svc \<le> int count \<and> existingItem = None
                           then (Inl (Error ''Cache is full''), rows)
                           else
                             (case existingItem of
                                Some item \<Rightarrow>
                                  (case item_update f item v now rows of
                                     Inl e \<Rightarrow> (Inl e, rows)
                                   | Inr rows' \<Rightarrow> (Inr True, rows'))
                              | None \<Rightarrow>
                                  (case CacheItem_create f k v now rows of
                                     Inl e \<Rightarrow> (Inl e, rows)
                                   | Inr rows' \<Rightarrow> (Inr True, rows')))))))"

definition CacheService_set ::
  "CacheService \<Rightarrow> faults \<Rightarrow> int \<Rightarrow> string option \<Rightarrow> json option \<Rightarrow> table \<Rightarrow> (js_error + bool) \<times> table" where
  "CacheService_set svc f now k_opt v_opt rows =
     (case set_try svc f now k_opt v_opt rows of
        (Inl e, rows') \<Rightarrow>
          (if message e = ''Cache is full'' then (Inl e, rows')
           else (Inl (wrap ''Failed to set cache value: '' e), rows'))
      | (Inr b, rows') \<Rightarrow> (Inr b, rows'))"

definition get_try :: "faults \<Rightarrow> string option \<Rightarrow> table \<Rightarrow> js_error + json" where
  "get_try f k_opt rows =
     (case k_opt of
        None \<Rightarrow> Inl (Error ''Key is required'')
      | Some k \<Rightarrow>
          if k = [] then Inl (Error ''Key is required'')
          else
            (case CacheItem_findByPk f k rows of
               Inl e \<Rightarrow> Inl e
             | Inr None \<Rightarrow> Inr JNull
             | Inr (Some item) \<Rightarrow> value_get item))"

definition CacheService_get :: "faults \<Rightarrow> string option \<Rightarrow> table \<Rightarrow> js_error + json" where
  "CacheService_get f k_opt rows =
     (case get_try f k_opt rows of
        Inl e \<Rightarrow> Inl (wrap ''Failed to get cache value: '' e)
      | Inr v \<Rightarrow> Inr v)"

definition delete_try :: "faults \<Rightarrow> string option \<Rightarrow> table \<Rightarrow> (js_error + bool) \<times> table" where
  "delete_try f k_opt rows =
     (case k_opt of
        None \<Rightarrow> (Inl (Error ''Key is required''), rows)
      | Some k \<Rightarrow>
          if k = [] then (Inl (Error ''Key is required''), rows)
          else
            (case CacheItem_destroy f (\<lambda>r. key r = k) rows of
               Inl e \<Rightarrow> (Inl e, rows)
             | Inr (deleted, rows') \<Rightarrow> (Inr (0 < deleted), rows')))"

definition CacheService_delete :: "faults \<Rightarrow> string option \<Rightarrow> table \<Rightarrow> (js_error + bool) \<times> table" where
  "CacheService_delete f k_opt rows =
     (case delete_try f k_opt rows of
        (Inl e, rows') \<Rightarrow> (Inl (wrap ''Failed to delete cache value: '' e), rows')
      | (Inr b, rows') \<Rightarrow> (Inr b, rows'))"

definition CacheService_size :: "faults \<Rightarrow> table \<Rightarrow> js_error + nat" where
  "CacheService_size f rows =
     (case CacheItem_count f (\<lambda>r. True) rows of
        Inl e \<Rightarrow> Inl (wrap ''Failed to get cache size: '' e)
      | Inr n \<Rightarrow> Inr n)"

definition CacheService_clear :: "faults \<Rightarrow> table \<Rightarrow> (js_error + unit) \<times> table" where
  "CacheService_clear f rows =
     (case CacheItem_destroy f (\<lambda>r. True) rows of
        Inl e \<Rightarrow> (Inl (wrap ''Failed to clear cache: '' e), rows)
      | Inr (deleted, rows') \<Rightarrow> (Inr (), rows'))"

record stats =
  totalItems :: nat
  oldestItemTimestamp :: "int option"
  newestItemTimestamp :: "int option"
  stats_maxSize :: int
  remainingSpace :: int

definition getStats_try :: "CacheService \<Rightarrow> faults \<Rightarrow> table \<Rightarrow> js_error + stats" where
  "getStats_try svc f rows =
     (case CacheItem_count f (\<lambda>r. True) rows of
        Inl e \<Rightarrow> Inl e
      | Inr total' \<Rightarrow>
          (case CacheItem_findOne f ASC rows of
             Inl e \<Rightarrow> Inl e
           | Inr oldest \<Rightarrow>
               (case CacheItem_findOne f DESC rows of
                  Inl e \<Rightarrow> Inl e
                | Inr newest \<Rightarrow>
                    Inr \<lparr>totalItems = total',
                         oldestItemTimestamp = map_option timestamp oldest,
                         newestItemTimestamp = map_option timestamp newest,
                         stats_maxSize = maxSize svc,
                         remainingSpace = max 0 (maxSize svc - int total')\<rparr>)))"

definition CacheService_getStats :: "CacheService \<Rightarrow> faults \<Rightarrow> table \<Rightarrow> js_error + stats" where
  "CacheService_getStats svc f rows =
     (case getStats_try svc f rows of
        Inl e \<Rightarrow> Inl (wrap ''Failed to get cache stats: '' e)
      | Inr s \<Rightarrow> Inr s)"

text \<open>
  \<^verbatim>\<open>new Date(x)\<close> keeps the whole milliseconds of \<open>x\<close>: the time value is truncated
  towards zero. The age is a JavaScript number, here a rational with exact arithmetic;
  the limits of the Date range are not modelled.
\<close>

definition Date_new :: "rat \<Rightarrow> int" where
  "Date_new x = (if 0 \<le> x then \<lfloor>x\<rfloor> else \<lceil>x\<rceil>)"

definition cutoffTime :: "int \<Rightarrow> rat \<Rightarrow> int" where
  "cutoffTime now maxAgeMinutes = Date_new (of_int now - maxAgeMinutes * 60000)"

definition cleanupOldEntries_try :: "faults \<Rightarrow> int \<Rightarrow> rat option \<Rightarrow> table \<Rightarrow> (js_error + nat) \<times> table" where
  "cleanupOldEntries_try f now arg rows =
     (let maxAgeMinutes = (case arg of None \<Rightarrow> 60 | Some m \<Rightarrow> m) in
      if maxAgeMinutes \<le> 0 then (Inl (Error ''Max age must be positive''), rows)
      else
        (case CacheItem_destroy f (\<lambda>r. timestamp r < cutoffTime now maxAgeMinutes) rows of
           Inl e \<Rightarrow> (Inl e, rows)
         | Inr (deleted, rows') \<Rightarrow> (Inr deleted, rows')))"

definition CacheService_cleanupOldEntries ::
  "faults \<Rightarrow> int \<Rightarrow> rat option \<Rightarrow> table \<Rightarrow> (js_error + nat) \<times> table" where
  "CacheService_cleanupOldEntries f now arg rows =
     (case cleanupOldEntries_try f now arg rows of
        (Inl e, rows') \<Rightarrow> (Inl (wrap ''Failed to cleanup old entries: '' e), rows')
      | (Inr n, rows') \<Rightarrow> (Inr n, rows'))"

definition has_try :: "faults \<Rightarrow> string option \<Rightarrow> table \<Rightarrow> js_error + bool" where
  "has_try f k_opt rows =
     (case k_opt of
        None \<Rightarrow> Inl (Error ''Key is required'')
      | Some k \<Rightarrow>
          if k = [] then Inl (Error ''Key is required'')
          else
            (case CacheItem_count f (\<lambda>r. key r = k) rows of
               Inl e \<Rightarrow> Inl e
             | Inr count \<Rightarrow> Inr (0 < count)))"

definition CacheService_has :: "faults \<Rightarrow> string option \<Rightarrow> table \<Rightarrow> js_error + bool" where
  "CacheService_has f k_opt rows =
     (case has_try f k_opt rows of
        Inl e \<Rightarrow> Inl (wrap ''Failed to check key existence: '' e)
      | Inr b \<Rightarrow> Inr b)"

subsection \<open>Sequences of operations\<close>

datatype operation =
    OpSet "string option" "json option"
  | OpGet "string option"
  | OpDelete "string option"
  | OpHas "string option"
  | OpSize
  | OpClear
  | OpCleanupOldEntries "rat option"
  | OpGetStats

text \<open>
  One call: the faults of the store during the call, the clock reading, the operation.
  \<open>exec\<close> is the table after the call, whether it returned or threw.
\<close>

fun exec :: "CacheService \<Rightarrow> faults \<times> int \<times> operation \<Rightarrow> table \<Rightarrow> table" where
  "exec svc (f, now, OpSet k v) rows = snd (CacheService_set svc f now k v rows)"
| "exec svc (f, now, OpGet k) rows = rows"
| "exec svc (f, now, OpDelete k) rows = snd (CacheService_delete f k rows)"
| "exec svc (f, now, OpHas k) rows = rows"
| "exec svc (f, now, OpSize) rows = rows"
| "exec svc (f, now, OpClear) rows = snd (CacheService_clear f rows)"
| "exec svc (f, now, OpCleanupOldEntries m) rows = snd (CacheService_cleanupOldEntries f now m rows)"
| "exec svc (f, now, OpGetStats) rows = rows"

definition run :: "CacheService \<Rightarrow> (faults \<times> int \<times> operation) list \<Rightarrow> table \<Rightarrow> table" where
  "run svc calls rows = foldl (\<lambda>t c. exec svc c t) rows calls"

section \<open>Vocabulary of the properties\<close>



text \<open>A store in which one kind of call is rejected with the given message.\<close>

definition fault_on :: "store_call \<Rightarrow> string \<Rightarrow> faults" where
  "fault_on c m = (\<lambda>c'. if c' = c then Some m else None)"

text \<open>Example data: a service of capacity 2 and a table that fills it.\<close>

definition service2 :: CacheService where
  "service2 = \<lparr>maxSize = 2\<rparr>"

definition table_ab :: table where
  "table_ab =
     [\<lparr>key = ''a'', raw_value = ''1'', timestamp = 1000\<rparr>,
      \<lparr>key = ''b'', raw_value = ''2'', timestamp = 2000\<rparr>]"

definition calls_abc :: "(faults \<times> int \<times> operation) list" where
  "calls_abc =
     [(no_faults, 1000, OpSet (Some ''a'') (Some (JNum 1))),
      (no_faults, 2000, OpSet (Some ''b'') (Some (JNum 2))),
      (no_faults, 3000, OpSet (Some ''c'') (Some (JNum 3)))]"


section \<open>The store calls without faults\<close>

lemma no_faults_None: "no_faults c = None"
  by (simp add: no_faults_def)

lemma query_no_faults: "query no_faults c r = Inr r"
  by (simp add: query_def no_faults_None)

lemma find_None_iff_key: "(find (\<lambda>r. key r = k) rows = None) = (k \<notin> key ` set rows)"
  by (auto simp: find_None_iff)

lemma find_key_Some:
  assumes "k \<in> key ` set rows"
  shows "\<exists>item. find (\<lambda>r. key r = k) rows = Some item \<and> key item = k"
proof (cases "find (\<lambda>r. key r = k) rows")
  case None
  with assms show ?thesis by (simp add: find_None_iff_key)
next
  case (Some item)
  then have "key item = k" by (auto simp: find_Some_iff)
  with Some show ?thesis by simp
qed

lemma find_updated:
  "find (\<lambda>r. key r = k) (map (\<lambda>r. if key r = k then r\<lparr>raw_value := x, timestamp := t\<rparr> else r) rows)
     = map_option (\<lambda>r. r\<lparr>raw_value := x, timestamp := t\<rparr>) (find (\<lambda>r. key r = k) rows)"
  by (induction rows) simp_all

lemma find_appended:
  assumes "k \<notin> key ` set rows" and "key item = k"
  shows "find (\<lambda>r. key r = k) (rows @ [item]) = Some item"
  using assms by (induction rows) auto

lemma sort_key_Nil_iff: "(sort_key f xs = []) = (xs = [])"
  using length_sort [of f xs] by (metis length_0_conv)

lemma sorted_hd_Min:
  fixes xs :: "int list"
  assumes "sorted xs" and "xs \<noteq> []"
  shows "hd xs = Min (set xs)"
proof (cases xs)
  case Nil
  with assms show ?thesis by simp
next
  case (Cons a as)
  with assms have "\<forall>y\<in>set as. a \<le> y" by simp
  then have "Min (set (a # as)) = a"
    by (intro Min_eqI) auto
  with Cons show ?thesis by simp
qed

lemma sorted_last_Max:
  fixes xs :: "int list"
  assumes "sorted xs" and "xs \<noteq> []"
  shows "last xs = Max (set xs)"
proof -
  have "\<forall>y\<in>set xs. y \<le> last xs"
    using assms by (induction xs) auto
  moreover have "last xs \<in> set xs" using assms by simp
  ultimately show ?thesis by (intro Max_eqI [symmetric]) auto
qed

lemma findOne_ASC:
  "CacheItem_findOne no_faults ASC rows =
     Inr (if rows = [] then None else Some (hd (sort_key timestamp rows)))"
  by (cases "sort_key timestamp rows")
     (auto simp: CacheItem_findOne_def query_no_faults sort_key_Nil_iff)

lemma findOne_DESC:
  "CacheItem_findOne no_faults DESC rows =
     Inr (if rows = [] then None else Some (last (sort_key timestamp rows)))"
  by (cases "rev (sort_key timestamp rows)")
     (auto simp: CacheItem_findOne_def query_no_faults sort_key_Nil_iff hd_rev [symmetric]
        simp del: hd_rev)

lemma timestamp_hd_sort:
  assumes "rows \<noteq> []"
  shows "timestamp (hd (sort_key timestamp rows)) = Min (timestamp ` set rows)"
proof -
  have ne: "sort_key timestamp rows \<noteq> []" using assms by (simp add: sort_key_Nil_iff)
  have "timestamp (hd (sort_key timestamp rows)) = hd (map timestamp (sort_key timestamp rows))"
    using ne by (simp add: hd_map)
  also have "\<dots> = Min (set (map timestamp (sort_key timestamp rows)))"
    using ne by (intro sorted_hd_Min) auto
  finally show ?thesis by simp
qed

lemma timestamp_last_sort:
  assumes "rows \<noteq> []"
  shows "timestamp (last (sort_key timestamp rows)) = Max (timestamp ` set rows)"
proof -
  have ne: "sort_key timestamp rows \<noteq> []" using assms by (simp add: sort_key_Nil_iff)
  have "timestamp (last (sort_key timestamp rows)) = last (map timestamp (sort_key timestamp rows))"
    using ne by (simp add: last_map)
  also have "\<dots> = Max (set (map timestamp (sort_key timestamp rows)))"
    using ne by (intro sorted_last_Max) auto
  finally show ?thesis by simp
qed




section \<open>What \<^verbatim>\<open>set\<close> does on a store without faults\<close>

lemma set_no_faults:
  assumes "k \<noteq> []"
  shows "CacheService_set svc no_faults now (Some k) (Some v) rows =
           (if k \<in> key ` set rows then
              (Inr True,
               map (\<lambda>r. if key r = k then r\<lparr>raw_value := JSON_stringify v, timestamp := now\<rparr> else r) rows)
            else if maxSize svc \<le> int (length rows) then (Inl (Error ''Cache is full''), rows)
            else (Inr True, rows @ [\<lparr>key = k, raw_value = JSON_stringify v, timestamp = now\<rparr>]))"
proof (cases "k \<in> key ` set rows")
  case True
  then obtain item where item: "find (\<lambda>r. key r = k) rows = Some item" "key item = k"
    using find_key_Some by blast
  have "set_try svc no_faults now (Some k) (Some v) rows =
          (Inr True,
           map (\<lambda>r. if key r = k then r\<lparr>raw_value := JSON_stringify v, timestamp := now\<rparr> else r) rows)"
    using assms item
    by (simp add: set_try_def CacheItem_count_def CacheItem_findByPk_def item_update_def
        value_set_def query_no_faults)
  with True show ?thesis by (simp add: CacheService_set_def)
next
  case False
  then have none: "find (\<lambda>r. key r = k) rows = None" by (simp add: find_None_iff_key)
  have "set_try svc no_faults now (Some k) (Some v) rows =
          (if maxSize svc \<le> int (length rows) then (Inl (Error ''Cache is full''), rows)
           else (Inr True, rows @ [\<lparr>key = k, raw_value = JSON_stringify v, timestamp = now\<rparr>]))"
    using assms none False
    by (simp add: set_try_def CacheItem_count_def CacheItem_findByPk_def CacheItem_create_def
        value_set_def query_no_faults no_faults_None)
  with False show ?thesis by (simp add: CacheService_set_def)
qed

lemma size_no_faults: "CacheService_size no_faults rows = Inr (length rows)"
  by (simp add: CacheService_size_def CacheItem_count_def query_no_faults)

lemma set_success_stored:
  assumes "k \<noteq> []"
    and "CacheService_set svc no_faults now (Some k) (Some v) rows = (Inr True, rows')"
  shows "\<exists>item. find (\<lambda>r. key r = k) rows' = Some item \<and> raw_value item = JSON_stringify v"
proof (cases "k \<in> key ` set rows")
  case True
  then obtain item where item: "find (\<lambda>r. key r = k) rows = Some item"
    using find_key_Some by blast
  from True assms have
    "rows' = map (\<lambda>r. if key r = k then r\<lparr>raw_value := JSON_stringify v, timestamp := now\<rparr> else r) rows"
    by (simp add: set_no_faults)
  with item show ?thesis by (simp add: find_updated)
next
  case False
  with assms have "rows' = rows @ [\<lparr>key = k, raw_value = JSON_stringify v, timestamp = now\<rparr>]"
    by (simp add: set_no_faults split: if_splits)
  with False show ?thesis by (simp add: find_appended)
qed

lemma get_no_faults:
  assumes "k \<noteq> []"
  shows "CacheService_get no_faults (Some k) rows =
           (case find (\<lambda>r. key r = k) rows of
              None \<Rightarrow> Inr JNull
            | Some item \<Rightarrow>
                (case JSON_parse (raw_value item) of
                   Inl e \<Rightarrow> Inl (Error (''Failed to get cache value: '' @ message e))
                 | Inr v \<Rightarrow> Inr v))"
  using assms
  by (simp add: CacheService_get_def get_try_def CacheItem_findByPk_def query_no_faults
      value_get_def wrap_def split: option.splits sum.splits)

lemma has_no_faults:
  assumes "k \<noteq> []"
  shows "CacheService_has no_faults (Some k) rows = Inr (k \<in> key ` set rows)"
  using assms
  by (auto simp: CacheService_has_def has_try_def CacheItem_count_def query_no_faults
      filter_empty_conv)

section \<open>Admission at capacity\<close>

text \<open>
  Claim C1. On a store without faults, for a non-empty key that has no record, when the
  number of rows is at least \<open>maxSize\<close>, \<^verbatim>\<open>set(key, value)\<close> throws the error
  \<^verbatim>\<open>Cache is full\<close> unwrapped and writes nothing: the table is the one before the call
  and \<^verbatim>\<open>size()\<close> returns what it returned before.
\<close>

theorem set_new_key_at_capacity:
  assumes "k \<noteq> []" and "k \<notin> key ` set rows" and "maxSize svc \<le> int (length rows)"
  shows "CacheService_set svc no_faults now (Some k) (Some v) rows =
           (Inl (Error ''Cache is full''), rows)
       \<and> CacheService_size no_faults (snd (CacheService_set svc no_faults now (Some k) (Some v) rows))
         = CacheService_size no_faults rows"
  using assms by (simp add: set_no_faults)

theorem set_new_key_at_capacity_witness:
  "''c'' \<noteq> [] \<and> ''c'' \<notin> key ` set table_ab \<and> maxSize service2 \<le> int (length table_ab)
   \<and> CacheService_set service2 no_faults 3000 (Some ''c'') (Some (JNum 3)) table_ab =
       (Inl (Error ''Cache is full''), table_ab)"
proof -
  have h: "''c'' \<noteq> []" "''c'' \<notin> key ` set table_ab" "maxSize service2 \<le> int (length table_ab)"
    by (simp_all add: table_ab_def service2_def)
  from set_new_key_at_capacity [OF h] h show ?thesis by simp
qed

text \<open>
  Claim C3. On a store without faults, for a non-empty key that has a record,
  \<^verbatim>\<open>set(key, value)\<close> returns true whatever the number of rows is, also when it equals
  \<open>maxSize\<close>: the rows of that key take the new serialized value and the new
  timestamp, every other row stays, and \<^verbatim>\<open>size()\<close> is unchanged.
\<close>

theorem set_existing_key_updates:
  assumes "k \<noteq> []" and "k \<in> key ` set rows"
  shows "CacheService_set svc no_faults now (Some k) (Some v) rows =
           (Inr True,
            map (\<lambda>r. if key r = k then r\<lparr>raw_value := JSON_stringify v, timestamp := now\<rparr> else r) rows)
       \<and> CacheService_size no_faults (snd (CacheService_set svc no_faults now (Some k) (Some v) rows))
         = CacheService_size no_faults rows"
  using assms by (simp add: set_no_faults size_no_faults)

theorem set_existing_key_updates_witness:
  "''a'' \<noteq> [] \<and> ''a'' \<in> key ` set table_ab \<and> int (length table_ab) = maxSize service2
   \<and> CacheService_set service2 no_faults 4000 (Some ''a'') (Some (JNum 99)) table_ab =
       (Inr True,
        [\<lparr>key = ''a'', raw_value = ''99'', timestamp = 4000\<rparr>,
         \<lparr>key = ''b'', raw_value = ''2'', timestamp = 2000\<rparr>])"
proof -
  have h: "''a'' \<noteq> []" "''a'' \<in> key ` set table_ab"
    by (simp_all add: table_ab_def)
  have s: "JSON_stringify (JNum 99) = ''99''"
    by code_simp
  have "int (length table_ab) = maxSize service2"
    by (simp add: table_ab_def service2_def)
  with set_existing_key_updates [OF h, of service2 4000 "JNum 99"] h s show ?thesis
    by (simp add: table_ab_def)
qed

section \<open>Deleting\<close>

text \<open>
  Claim C8. On a store without faults, for a non-empty key, \<^verbatim>\<open>delete(key)\<close> does not
  throw; it returns true exactly when the table had a row with that key, the table after
  it is the table before without the rows of that key, and \<^verbatim>\<open>has(key)\<close> on the table
  after it returns false, whether a row was removed or not.
\<close>

theorem delete_returns_whether_removed:
  assumes "k \<noteq> []"
  shows "CacheService_delete no_faults (Some k) rows =
           (Inr (k \<in> key ` set rows), filter (\<lambda>r. key r \<noteq> k) rows)
       \<and> CacheService_has no_faults (Some k) (snd (CacheService_delete no_faults (Some k) rows))
         = Inr False"
proof -
  have d: "delete_try no_faults (Some k) rows =
          (Inr (k \<in> key ` set rows), filter (\<lambda>r. key r \<noteq> k) rows)"
    using assms
    by (auto simp: delete_try_def CacheItem_destroy_def query_no_faults filter_empty_conv)
  have "CacheService_has no_faults (Some k) (filter (\<lambda>r. key r \<noteq> k) rows) = Inr False"
    using assms by (auto simp: has_no_faults)
  with d show ?thesis
    by (simp add: CacheService_delete_def)
qed

theorem delete_returns_whether_removed_witness:
  "''a'' \<noteq> []
   \<and> CacheService_delete no_faults (Some ''a'') table_ab =
       (Inr True, [\<lparr>key = ''b'', raw_value = ''2'', timestamp = 2000\<rparr>])
   \<and> CacheService_delete no_faults (Some ''zz'') table_ab = (Inr False, table_ab)"
  using delete_returns_whether_removed [of "''a''" table_ab]
    delete_returns_whether_removed [of "''zz''" table_ab]
  by (simp add: table_ab_def)

section \<open>Statistics\<close>

text \<open>
  Claim C9. On a store without faults \<^verbatim>\<open>getStats()\<close> returns the number of rows as
  \<open>totalItems\<close>, the least and the greatest timestamp of the table as
  \<open>oldestItemTimestamp\<close> and \<open>newestItemTimestamp\<close> (the absent value \<open>None\<close> for the
  empty table), the configured capacity as \<open>maxSize\<close>, and \<open>max 0 (maxSize - totalItems)\<close>
  as \<open>remainingSpace\<close>. Whenever \<^verbatim>\<open>getStats()\<close> returns, \<open>remainingSpace\<close> is not
  negative, also for a table with more than \<open>maxSize\<close> rows.
\<close>

theorem getStats_values:
  "CacheService_getStats svc no_faults rows =
     Inr \<lparr>totalItems = length rows,
          oldestItemTimestamp = (if rows = [] then None else Some (Min (timestamp ` set rows))),
          newestItemTimestamp = (if rows = [] then None else Some (Max (timestamp ` set rows))),
          stats_maxSize = maxSize svc,
          remainingSpace = max 0 (maxSize svc - int (length rows))\<rparr>
   \<and> (\<forall>f s. CacheService_getStats svc f rows = Inr s \<longrightarrow>
         0 \<le> remainingSpace s \<and> remainingSpace s = max 0 (stats_maxSize s - int (totalItems s)))"
proof -
  have "getStats_try svc no_faults rows =
     Inr \<lparr>totalItems = length rows,
          oldestItemTimestamp = (if rows = [] then None else Some (Min (timestamp ` set rows))),
          newestItemTimestamp = (if rows = [] then None else Some (Max (timestamp ` set rows))),
          stats_maxSize = maxSize svc,
          remainingSpace = max 0 (maxSize svc - int (length rows))\<rparr>"
    by (simp add: getStats_try_def CacheItem_count_def query_no_faults findOne_ASC findOne_DESC
        timestamp_hd_sort timestamp_last_sort)
  then have a: "CacheService_getStats svc no_faults rows =
     Inr \<lparr>totalItems = length rows,
          oldestItemTimestamp = (if rows = [] then None else Some (Min (timestamp ` set rows))),
          newestItemTimestamp = (if rows = [] then None else Some (Max (timestamp ` set rows))),
          stats_maxSize = maxSize svc,
          remainingSpace = max 0 (maxSize svc - int (length rows))\<rparr>"
    by (simp add: CacheService_getStats_def)
  have b: "0 \<le> remainingSpace s \<and> remainingSpace s = max 0 (stats_maxSize s - int (totalItems s))"
    if "CacheService_getStats svc f rows = Inr s" for f s
    using that
    by (auto simp: CacheService_getStats_def getStats_try_def CacheItem_count_def query_def
        split: sum.splits option.splits)
  from a b show ?thesis by blast
qed

theorem getStats_values_witness:
  "CacheService_getStats \<lparr>maxSize = 1\<rparr> no_faults table_ab =
     Inr \<lparr>totalItems = 2, oldestItemTimestamp = Some 1000, newestItemTimestamp = Some 2000,
          stats_maxSize = 1, remainingSpace = 0\<rparr>
   \<and> CacheService_getStats service2 no_faults [] =
     Inr \<lparr>totalItems = 0, oldestItemTimestamp = None, newestItemTimestamp = None,
          stats_maxSize = 2, remainingSpace = 2\<rparr>"
  using getStats_values [of "\<lparr>maxSize = 1\<rparr>" table_ab] getStats_values [of service2 "[]"]
  by (simp add: table_ab_def service2_def)

section \<open>Cleaning up old entries\<close>



section \<open>Reading: absent keys and stored nulls\<close>

lemma JSON_parse_null: "JSON_parse (JSON_stringify JNull) = Inr JNull"
  by code_simp




text \<open>
  Claim C10. On a store without faults, for a non-empty key, after a successful
  \<^verbatim>\<open>set(key, null)\<close> the operation \<^verbatim>\<open>has(key)\<close> returns true and \<^verbatim>\<open>get(key)\<close>
  returns \<^verbatim>\<open>null\<close>, the value that \<^verbatim>\<open>get(key)\<close> returns on any table without a record
  for the key, where \<^verbatim>\<open>has(key)\<close> returns false.
\<close>

theorem has_and_get_disagree_on_null:
  assumes "k \<noteq> []"
    and "CacheService_set svc no_faults now (Some k) (Some JNull) rows = (Inr True, rows')"
  shows "CacheService_has no_faults (Some k) rows' = Inr True
       \<and> CacheService_get no_faults (Some k) rows' = Inr JNull
       \<and> (k \<notin> key ` set rows0 \<longrightarrow>
            CacheService_get no_faults (Some k) rows0 = Inr JNull
          \<and> CacheService_has no_faults (Some k) rows0 = Inr False)"
proof -
  obtain item where item: "find (\<lambda>r. key r = k) rows' = Some item"
      "raw_value item = JSON_stringify JNull"
    using set_success_stored [OF assms] by blast
  have "find (\<lambda>r. key r = k) rows' \<noteq> None" using item by simp
  then have "k \<in> key ` set rows'" by (simp add: find_None_iff_key)
  then have h: "CacheService_has no_faults (Some k) rows' = Inr True"
    using assms(1) by (simp add: has_no_faults)
  have g: "CacheService_get no_faults (Some k) rows' = Inr JNull"
    using assms(1) item by (simp add: get_no_faults JSON_parse_null del: JSON_stringify.simps)
  have a: "CacheService_get no_faults (Some k) rows0 = Inr JNull
          \<and> CacheService_has no_faults (Some k) rows0 = Inr False" if "k \<notin> key ` set rows0"
    using that assms(1) by (simp add: get_no_faults has_no_faults find_None_iff_key [symmetric])
  from h g a show ?thesis by blast
qed

theorem has_and_get_disagree_on_null_witness:
  "''n'' \<noteq> []
   \<and> CacheService_set service2 no_faults 5000 (Some ''n'') (Some JNull) [] =
       (Inr True, [\<lparr>key = ''n'', raw_value = ''null'', timestamp = 5000\<rparr>])
   \<and> CacheService_has no_faults (Some ''n'') [\<lparr>key = ''n'', raw_value = ''null'', timestamp = 5000\<rparr>]
       = Inr True
   \<and> CacheService_get no_faults (Some ''n'') [\<lparr>key = ''n'', raw_value = ''null'', timestamp = 5000\<rparr>]
       = Inr JNull
   \<and> CacheService_get no_faults (Some ''n'') [] = Inr JNull
   \<and> CacheService_has no_faults (Some ''n'') [] = Inr False"
proof -
  have k: "''n'' \<noteq> []" by simp
  have s: "CacheService_set service2 no_faults 5000 (Some ''n'') (Some JNull) [] =
       (Inr True, [\<lparr>key = ''n'', raw_value = ''null'', timestamp = 5000\<rparr>])"
    by (simp add: set_no_faults service2_def)
  from has_and_get_disagree_on_null [OF k s, of "[]"] k s show ?thesis by simp
qed

section \<open>The capacity invariant\<close>

lemma set_try_length:
  "snd (set_try svc f now k v rows) = rows
   \<or> length (snd (set_try svc f now k v rows)) = length rows
   \<or> (int (length rows) < maxSize svc
       \<and> length (snd (set_try svc f now k v rows)) = Suc (length rows))"
  by (auto simp: set_try_def CacheItem_count_def CacheItem_findByPk_def item_update_def
        CacheItem_create_def query_def split: option.splits sum.splits)

lemma set_length_le:
  assumes "int (length rows) \<le> maxSize svc"
  shows "int (length (snd (CacheService_set svc f now k v rows))) \<le> maxSize svc"
proof -
  have s: "snd (CacheService_set svc f now k v rows) = snd (set_try svc f now k v rows)"
    by (simp add: CacheService_set_def split: prod.splits sum.splits)
  show ?thesis
    using set_try_length [of svc f now k v rows] assms unfolding s by auto
qed

lemma delete_length_le: "length (snd (CacheService_delete f k rows)) \<le> length rows"
  by (auto simp: CacheService_delete_def delete_try_def CacheItem_destroy_def query_def
      split: option.splits sum.splits prod.splits)

lemma clear_length_le: "length (snd (CacheService_clear f rows)) \<le> length rows"
  by (auto simp: CacheService_clear_def CacheItem_destroy_def query_def
      split: option.splits sum.splits prod.splits)

lemma cleanup_length_le:
  "length (snd (CacheService_cleanupOldEntries f now m rows)) \<le> length rows"
  by (auto simp: CacheService_cleanupOldEntries_def cleanupOldEntries_try_def Let_def
      CacheItem_destroy_def query_def
      split: option.splits sum.splits prod.splits)

lemma exec_length_le:
  assumes "int (length rows) \<le> maxSize svc"
  shows "int (length (exec svc c rows)) \<le> maxSize svc"
proof -
  obtain f now op where c: "c = (f, now, op)" by (cases c)
  show ?thesis
  proof (cases op)
    case (OpSet k v)
    with c assms show ?thesis by (simp add: set_length_le)
  next
    case (OpDelete k)
    with c assms delete_length_le [of f k rows] show ?thesis by simp
  next
    case OpClear
    with c assms clear_length_le [of f rows] show ?thesis by simp
  next
    case (OpCleanupOldEntries m)
    with c assms cleanup_length_le [of f now m rows] show ?thesis by simp
  qed (use c assms in simp_all)
qed

lemma run_length_le:
  assumes "int (length rows) \<le> maxSize svc"
  shows "int (length (run svc calls rows)) \<le> maxSize svc"
  using assms unfolding run_def
  by (induction calls arbitrary: rows) (simp_all add: exec_length_le)

text \<open>
  Claim C2. For a capacity that is not negative, and every sequence of calls of
  \<^verbatim>\<open>set\<close>, \<^verbatim>\<open>get\<close>, \<^verbatim>\<open>delete\<close>, \<^verbatim>\<open>has\<close>, \<^verbatim>\<open>size\<close>, \<^verbatim>\<open>clear\<close>,
  \<^verbatim>\<open>cleanupOldEntries\<close> and \<^verbatim>\<open>getStats\<close> executed one after the other from the empty
  table, with any arguments, clock readings and store faults: after each call (after the
  first \<open>n\<close> calls, for every \<open>n\<close>) the table holds at most \<open>maxSize\<close> rows, hence
  at most \<open>maxSize\<close> distinct keys.
\<close>

theorem capacity_invariant:
  assumes "0 \<le> maxSize svc"
  shows "int (card (key ` set (run svc (take n calls) []))) \<le> maxSize svc
       \<and> int (length (run svc (take n calls) [])) \<le> maxSize svc"
proof -
  have l: "int (length (run svc (take n calls) [])) \<le> maxSize svc"
    using assms by (intro run_length_le) simp
  have "card (key ` set (run svc (take n calls) [])) \<le> length (run svc (take n calls) [])"
    by (metis card_image_le card_length le_trans List.finite_set)
  with l show ?thesis by linarith
qed

lemma run_calls_abc: "run service2 calls_abc [] = table_ab"
  by (simp add: run_def calls_abc_def set_no_faults service2_def table_ab_def Number_toString_def
      digits.simps digit_char_def char_of_eq_iff)

theorem capacity_invariant_witness:
  "0 \<le> maxSize service2
   \<and> int (card (key ` set (run service2 (take 3 calls_abc) []))) \<le> maxSize service2
   \<and> int (length (run service2 (take 3 calls_abc) [])) \<le> maxSize service2
   \<and> run service2 (take 3 calls_abc) [] = table_ab"
proof -
  have h: "0 \<le> maxSize service2" by (simp add: service2_def)
  have t: "take 3 calls_abc = calls_abc" by (simp add: calls_abc_def)
  from capacity_invariant [OF h, of 3 calls_abc] h t run_calls_abc show ?thesis by simp
qed

section \<open>\<^verbatim>\<open>JSON.parse\<close> after \<^verbatim>\<open>JSON.stringify\<close>\<close>

subsection \<open>Numbers\<close>














subsection \<open>Strings\<close>






subsection \<open>One step of the parser\<close>






















subsection \<open>Values, elements and members\<close>



subsection \<open>The bound of the parser\<close>

lemma skip_ws_length: "length (skip_ws cs) \<le> length cs"
  by (simp add: skip_ws_def length_dropWhile_le)

lemma skip_ws_Cons_length: "skip_ws cs = c # r \<Longrightarrow> length r < length cs"
  using skip_ws_length [of cs] by simp

lemma strip_prefix_length: "strip_prefix p cs = Some r \<Longrightarrow> length r \<le> length cs"
  by (auto simp: strip_prefix_def split: if_splits)

lemma parse_chars_length: "parse_chars cs = Some (s, r) \<Longrightarrow> length r < length cs"
proof (induction cs arbitrary: s r rule: length_induct)
  case (1 cs)
  have IH: "length r' < length ys" if "parse_chars ys = Some (s', r')" "length ys < length cs"
    for ys s' r'
    using that "1.IH" by blast
  show ?case
  proof (cases cs)
    case Nil
    with "1.prems" show ?thesis by simp
  next
    case (Cons c cs')
    with "1.prems" show ?thesis
      by (auto split: if_splits list.splits option.splits prod.splits dest!: IH)
  qed
qed

lemma parse_nat_length: "parse_nat cs = Some (n, r) \<Longrightarrow> length r < length cs"
proof -
  assume a: "parse_nat cs = Some (n, r)"
  then have "takeWhile is_digit cs \<noteq> []" and "r = dropWhile is_digit cs"
    by (auto simp: parse_nat_def Let_def split: if_splits)
  moreover have "length (takeWhile is_digit cs) + length (dropWhile is_digit cs) = length cs"
    by (metis length_append takeWhile_dropWhile_id)
  ultimately show ?thesis by (cases "takeWhile is_digit cs") auto
qed

lemma parse_number_length: "parse_number cs = Some (v, r) \<Longrightarrow> length r < length cs"
  by (auto simp: parse_number_def split: list.splits if_splits option.splits
      dest!: parse_nat_length)

lemma parse_consumes_aux:
  "(\<forall>cs v r. parse_value n cs = Some (v, r) \<longrightarrow> length r < length cs)
 \<and> (\<forall>acc cs v r. parse_elems n acc cs = Some (v, r) \<longrightarrow> length r < length cs)
 \<and> (\<forall>acc cs v r. parse_members n acc cs = Some (v, r) \<longrightarrow> length r < length cs)"
proof (induction n)
  case 0
  show ?case by simp
next
  case (Suc n)
  have V: "length r < length cs" if "parse_value n cs = Some (v, r)" for cs v r
    using that Suc by blast
  have E: "length r < length cs" if "parse_elems n acc cs = Some (v, r)" for acc cs v r
    using that Suc by blast
  have M: "length r < length cs" if "parse_members n acc cs = Some (v, r)" for acc cs v r
    using that Suc by blast
  have v: "length r < length cs" if p: "parse_value (Suc n) cs = Some (v, r)" for cs v r
  proof (cases "skip_ws cs")
    case Nil
    with p show ?thesis by simp
  next
    case (Cons c r0)
    have l0: "length r0 < length cs" using Cons by (rule skip_ws_Cons_length)
    have l1: "length (c # r0) \<le> length cs" using l0 by simp
    from p Cons l0 l1 show ?thesis
      by (auto split: if_splits option.splits prod.splits list.splits
          dest!: strip_prefix_length parse_chars_length parse_number_length E M
            skip_ws_Cons_length)
  qed
  have e: "length r < length cs" if p: "parse_elems (Suc n) acc cs = Some (v, r)" for acc cs v r
    using p
    by (auto split: if_splits option.splits prod.splits list.splits
        dest!: V E skip_ws_Cons_length)
  have m: "length r < length cs" if p: "parse_members (Suc n) acc cs = Some (v, r)" for acc cs v r
    using p
    by (auto split: if_splits option.splits prod.splits list.splits
        dest!: V M skip_ws_Cons_length parse_chars_length)
  from v e m show ?case by blast
qed

lemma parse_value_consumes: "parse_value n cs = Some (v, r) \<Longrightarrow> length r < length cs"
  using parse_consumes_aux [of n] by blast

lemma fuel_step:
  "(\<forall>cs. 2 * length cs + 1 \<le> n \<longrightarrow> parse_value (Suc n) cs = parse_value n cs)
 \<and> (\<forall>acc cs. 2 * length cs + 2 \<le> n \<longrightarrow> parse_elems (Suc n) acc cs = parse_elems n acc cs)
 \<and> (\<forall>acc cs. 2 * length cs + 2 \<le> n \<longrightarrow> parse_members (Suc n) acc cs = parse_members n acc cs)"
proof (induction n)
  case 0
  show ?case by simp
next
  case (Suc n)
  note unfold_del = parse_value.simps parse_elems.simps parse_members.simps
  have V: "parse_value (Suc n) cs = parse_value n cs" if "2 * length cs + 1 \<le> n" for cs
    using that Suc by blast
  have E: "parse_elems (Suc n) acc cs = parse_elems n acc cs" if "2 * length cs + 2 \<le> n" for acc cs
    using that Suc by blast
  have M: "parse_members (Suc n) acc cs = parse_members n acc cs" if "2 * length cs + 2 \<le> n" for acc cs
    using that Suc by blast
  have v: "parse_value (Suc (Suc n)) cs = parse_value (Suc n) cs" if b: "2 * length cs + 1 \<le> Suc n" for cs
  proof (cases "skip_ws cs")
    case Nil
    then show ?thesis by simp
  next
    case (Cons c r0)
    have "length r0 < length cs" using Cons by (rule skip_ws_Cons_length)
    with b have l: "2 * length r0 + 2 \<le> n" by simp
    have pe: "parse_elems (Suc n) [] r0 = parse_elems n [] r0" using l by (rule E)
    have pm: "parse_members (Suc n) [] r0 = parse_members n [] r0" using l by (rule M)
    show ?thesis
      unfolding parse_value.simps(2) [of "Suc n" cs] parse_value.simps(2) [of n cs]
      by (simp add: Cons pe pm del: unfold_del split: list.splits)
  qed
  have e: "parse_elems (Suc (Suc n)) acc cs = parse_elems (Suc n) acc cs"
    if b: "2 * length cs + 2 \<le> Suc n" for acc cs
  proof -
    have pv: "parse_value (Suc n) cs = parse_value n cs" using b by (intro V) simp
    have pe: "parse_elems (Suc n) (acc @ [x]) r' = parse_elems n (acc @ [x]) r'"
      if "parse_value n cs = Some (x, r)" "skip_ws r = c # r'" for x r c r'
    proof -
      have "length r < length cs" using that(1) by (rule parse_value_consumes)
      moreover have "length r' < length r" using that(2) by (rule skip_ws_Cons_length)
      ultimately have "2 * length r' + 2 \<le> n" using b by simp
      then show ?thesis by (rule E)
    qed
    show ?thesis
      unfolding parse_elems.simps(2) [of "Suc n" acc cs] parse_elems.simps(2) [of n acc cs] pv
      by (auto simp add: pe simp del: unfold_del split: option.splits list.splits)
  qed
  have m: "parse_members (Suc (Suc n)) acc cs = parse_members (Suc n) acc cs"
    if b: "2 * length cs + 2 \<le> Suc n" for acc cs
  proof -
    have pv: "parse_value (Suc n) r2 = parse_value n r2"
      if "skip_ws cs = q # r0" "parse_chars r0 = Some (k, r1)" "skip_ws r1 = c # r2" for q r0 k r1 c r2
    proof -
      have "length r0 < length cs" using that(1) by (rule skip_ws_Cons_length)
      moreover have "length r1 < length r0" using that(2) by (rule parse_chars_length)
      moreover have "length r2 < length r1" using that(3) by (rule skip_ws_Cons_length)
      ultimately show ?thesis using b by (intro V) simp
    qed
    have pm: "parse_members (Suc n) acc' r4 = parse_members n acc' r4"
      if "skip_ws cs = q # r0" "parse_chars r0 = Some (k, r1)" "skip_ws r1 = c # r2"
        "parse_value n r2 = Some (x, r3)" "skip_ws r3 = c' # r4" for q r0 k r1 c r2 x r3 c' r4 acc'
    proof -
      have "length r0 < length cs" using that(1) by (rule skip_ws_Cons_length)
      moreover have "length r1 < length r0" using that(2) by (rule parse_chars_length)
      moreover have "length r2 < length r1" using that(3) by (rule skip_ws_Cons_length)
      moreover have "length r3 < length r2" using that(4) by (rule parse_value_consumes)
      moreover have "length r4 < length r3" using that(5) by (rule skip_ws_Cons_length)
      ultimately have "2 * length r4 + 2 \<le> n" using b by simp
      then show ?thesis by (rule M)
    qed
    show ?thesis
      unfolding parse_members.simps(2) [of "Suc n" acc cs] parse_members.simps(2) [of n acc cs]
      by (auto simp add: pv pm simp del: unfold_del split: option.splits list.splits)
  qed
  from v e m show ?case by blast
qed

lemma fuel_enough:
  assumes "2 * length cs + 1 \<le> n"
  shows "parse_value n cs = parse_value (2 * length cs + 1) cs"
proof -
  have "parse_value (2 * length cs + 1 + d) cs = parse_value (2 * length cs + 1) cs" for d
  proof (induction d)
    case 0
    show ?case by simp
  next
    case (Suc d)
    have "parse_value (Suc (2 * length cs + 1 + d)) cs = parse_value (2 * length cs + 1 + d) cs"
      using fuel_step [of "2 * length cs + 1 + d"] by simp
    with Suc show ?case by simp
  qed
  from this [of "n - (2 * length cs + 1)"] assms show ?thesis by simp
qed

text \<open>
  The bound that \<open>JSON_parse\<close> gives the parser is never the reason for a SyntaxError:
  every larger bound gives the same result.
\<close>

lemma JSON_parse_bound:
  assumes "2 * length text + 1 \<le> n"
  shows "JSON_parse text =
           (case parse_value n text of
              None \<Rightarrow> Inl SyntaxError
            | Some (v, r) \<Rightarrow> if skip_ws r = [] then Inr v else Inl SyntaxError)"
  using fuel_enough [OF assms] by (simp add: JSON_parse_def)

section \<open>Writing, then reading\<close>



section \<open>How failures reach the caller\<close>

lemma set_key_required:
  assumes "k_opt = None \<or> k_opt = Some []"
  shows "CacheService_set svc f now k_opt v_opt rows =
           (Inl (Error ''Failed to set cache value: Key is required''), rows)"
  using assms by (auto simp: CacheService_set_def set_try_def wrap_def)

lemma set_value_required:
  assumes "k \<noteq> []"
  shows "CacheService_set svc f now (Some k) None rows =
           (Inl (Error ''Failed to set cache value: Value is required''), rows)"
  using assms by (simp add: CacheService_set_def set_try_def wrap_def)

lemma get_key_required:
  assumes "k_opt = None \<or> k_opt = Some []"
  shows "CacheService_get f k_opt rows = Inl (Error ''Failed to get cache value: Key is required'')"
  using assms by (auto simp: CacheService_get_def get_try_def wrap_def)

lemma delete_key_required:
  assumes "k_opt = None \<or> k_opt = Some []"
  shows "CacheService_delete f k_opt rows =
           (Inl (Error ''Failed to delete cache value: Key is required''), rows)"
  using assms by (auto simp: CacheService_delete_def delete_try_def wrap_def)

lemma has_key_required:
  assumes "k_opt = None \<or> k_opt = Some []"
  shows "CacheService_has f k_opt rows =
           Inl (Error ''Failed to check key existence: Key is required'')"
  using assms by (auto simp: CacheService_has_def has_try_def wrap_def)

lemma cleanup_age_required:
  assumes "m \<le> 0"
  shows "CacheService_cleanupOldEntries f now (Some m) rows =
           (Inl (Error ''Failed to cleanup old entries: Max age must be positive''), rows)"
  using assms by (simp add: CacheService_cleanupOldEntries_def cleanupOldEntries_try_def wrap_def)

lemma set_catch:
  assumes "set_try svc f now k_opt v_opt rows = (Inl (Error msg), rows)"
  shows "CacheService_set svc f now k_opt v_opt rows =
           (Inl (if msg = ''Cache is full'' then Error msg
                 else Error (''Failed to set cache value: '' @ msg)), rows)"
  using assms by (simp add: CacheService_set_def wrap_def)

lemma set_count_rejected:
  assumes "k \<noteq> []" and "f Count = Some msg"
  shows "CacheService_set svc f now (Some k) (Some v) rows =
           (Inl (if msg = ''Cache is full'' then Error msg
                 else Error (''Failed to set cache value: '' @ msg)), rows)"
  using assms by (intro set_catch) (simp add: set_try_def CacheItem_count_def query_def)

lemma set_findByPk_rejected:
  assumes "k \<noteq> []" and "f Count = None" and "f FindByPk = Some msg"
  shows "CacheService_set svc f now (Some k) (Some v) rows =
           (Inl (if msg = ''Cache is full'' then Error msg
                 else Error (''Failed to set cache value: '' @ msg)), rows)"
  using assms
  by (intro set_catch)
     (simp add: set_try_def CacheItem_count_def CacheItem_findByPk_def query_def)

lemma set_update_rejected:
  assumes "k \<noteq> []" and "f Count = None" and "f FindByPk = None"
    and "k \<in> key ` set rows" and "f Update = Some msg"
  shows "CacheService_set svc f now (Some k) (Some v) rows =
           (Inl (if msg = ''Cache is full'' then Error msg
                 else Error (''Failed to set cache value: '' @ msg)), rows)"
proof -
  obtain item where "find (\<lambda>r. key r = k) rows = Some item"
    using find_key_Some [OF assms(4)] by blast
  with assms show ?thesis
    by (intro set_catch)
       (simp add: set_try_def CacheItem_count_def CacheItem_findByPk_def item_update_def query_def)
qed

lemma set_create_rejected:
  assumes "k \<noteq> []" and "f Count = None" and "f FindByPk = None"
    and "k \<notin> key ` set rows" and "int (length rows) < maxSize svc" and "f Create = Some msg"
  shows "CacheService_set svc f now (Some k) (Some v) rows =
           (Inl (if msg = ''Cache is full'' then Error msg
                 else Error (''Failed to set cache value: '' @ msg)), rows)"
proof -
  have "find (\<lambda>r. key r = k) rows = None"
    using assms(4) by (simp add: find_None_iff_key)
  with assms show ?thesis
    by (intro set_catch)
       (simp add: set_try_def CacheItem_count_def CacheItem_findByPk_def CacheItem_create_def
          query_def)
qed

lemma set_capacity_passes:
  assumes "k \<noteq> []" and "f Count = None" and "f FindByPk = None"
    and "k \<notin> key ` set rows" and "maxSize svc \<le> int (length rows)"
  shows "CacheService_set svc f now (Some k) (Some v) rows = (Inl (Error ''Cache is full''), rows)"
proof -
  have "find (\<lambda>r. key r = k) rows = None"
    using assms(4) by (simp add: find_None_iff_key)
  with assms have "set_try svc f now (Some k) (Some v) rows = (Inl (Error ''Cache is full''), rows)"
    by (simp add: set_try_def CacheItem_count_def CacheItem_findByPk_def query_def)
  then show ?thesis by (simp add: CacheService_set_def)
qed

text \<open>
  Claim C7, as stated, asks that a validation failure reaches the caller as an error that
  differs from every other failure, and that every store failure in \<^verbatim>\<open>set\<close> is wrapped.
  The handler of \<^verbatim>\<open>set\<close> wraps the validation error like any other error, so
  \<^verbatim>\<open>set("", null)\<close> on a working store and \<^verbatim>\<open>set("k", null)\<close> on a store whose count
  query is rejected with the message \<^verbatim>\<open>Key is required\<close> throw the same error; and a store
  failure with the message \<^verbatim>\<open>Cache is full\<close> is thrown unwrapped, as the capacity error
  is.
\<close>

theorem error_kinds_counterexample:
  "\<not> (CacheService_set service2 no_faults 0 (Some []) (Some JNull) [] \<noteq>
      CacheService_set service2 (fault_on Count ''Key is required'') 0 (Some ''k'') (Some JNull) [])
   \<and> \<not> (fst (CacheService_set service2 (fault_on Create ''Cache is full'') 0 (Some ''k'') (Some JNull) []) \<noteq>
      fst (CacheService_set service2 no_faults 0 (Some ''k'') (Some JNull) table_ab))"
  by code_simp

text \<open>
  Claim C7, amended. In every operation a validation failure (an empty or absent key, an
  absent value, an age that is not positive) is thrown inside the operation's
  \<^verbatim>\<open>try\<close> block and reaches the caller, whatever the state of the store, as an Error
  whose message is the operation's prefix followed by the message of the validation, the
  wrapping that a store failure gets; nothing but the text of the message tells the two
  apart. In \<^verbatim>\<open>set\<close>, the first store call that is rejected, with message \<open>msg\<close>,
  reaches the caller as an Error with the message
  \<^verbatim>\<open>Failed to set cache value: \<close> followed by \<open>msg\<close>, and nothing is written; only an error with the message
  \<^verbatim>\<open>Cache is full\<close>, which is what the capacity check throws, passes unwrapped.
\<close>

theorem errors_surfaced_by_message:
  "(k_opt = None \<or> k_opt = Some [] \<longrightarrow>
      CacheService_set svc f now k_opt v_opt rows =
        (Inl (Error ''Failed to set cache value: Key is required''), rows)
    \<and> CacheService_get f k_opt rows = Inl (Error ''Failed to get cache value: Key is required'')
    \<and> CacheService_delete f k_opt rows =
        (Inl (Error ''Failed to delete cache value: Key is required''), rows)
    \<and> CacheService_has f k_opt rows =
        Inl (Error ''Failed to check key existence: Key is required''))
   \<and> (k \<noteq> [] \<longrightarrow>
        CacheService_set svc f now (Some k) None rows =
          (Inl (Error ''Failed to set cache value: Value is required''), rows))
   \<and> (m \<le> 0 \<longrightarrow>
        CacheService_cleanupOldEntries f now (Some m) rows =
          (Inl (Error ''Failed to cleanup old entries: Max age must be positive''), rows))
   \<and> (k \<noteq> [] \<and>
        (f Count = Some msg
         \<or> f Count = None \<and> f FindByPk = Some msg
         \<or> f Count = None \<and> f FindByPk = None \<and> k \<in> key ` set rows \<and> f Update = Some msg
         \<or> f Count = None \<and> f FindByPk = None \<and> k \<notin> key ` set rows
             \<and> int (length rows) < maxSize svc \<and> f Create = Some msg) \<longrightarrow>
        CacheService_set svc f now (Some k) (Some v) rows =
          (Inl (if msg = ''Cache is full'' then Error msg
                else Error (''Failed to set cache value: '' @ msg)), rows))
   \<and> (k \<noteq> [] \<and> f Count = None \<and> f FindByPk = None \<and> k \<notin> key ` set rows
        \<and> maxSize svc \<le> int (length rows) \<longrightarrow>
        CacheService_set svc f now (Some k) (Some v) rows = (Inl (Error ''Cache is full''), rows))"
proof (intro conjI impI)
  assume "k_opt = None \<or> k_opt = Some []"
  then show "CacheService_set svc f now k_opt v_opt rows =
        (Inl (Error ''Failed to set cache value: Key is required''), rows)"
    and "CacheService_get f k_opt rows = Inl (Error ''Failed to get cache value: Key is required'')"
    and "CacheService_delete f k_opt rows =
        (Inl (Error ''Failed to delete cache value: Key is required''), rows)"
    and "CacheService_has f k_opt rows =
        Inl (Error ''Failed to check key existence: Key is required'')"
    by (rule set_key_required get_key_required delete_key_required has_key_required)+
next
  assume "k \<noteq> []"
  then show "CacheService_set svc f now (Some k) None rows =
          (Inl (Error ''Failed to set cache value: Value is required''), rows)"
    by (rule set_value_required)
next
  assume "m \<le> 0"
  then show "CacheService_cleanupOldEntries f now (Some m) rows =
          (Inl (Error ''Failed to cleanup old entries: Max age must be positive''), rows)"
    by (rule cleanup_age_required)
next
  assume "k \<noteq> [] \<and>
        (f Count = Some msg
         \<or> f Count = None \<and> f FindByPk = Some msg
         \<or> f Count = None \<and> f FindByPk = None \<and> k \<in> key ` set rows \<and> f Update = Some msg
         \<or> f Count = None \<and> f FindByPk = None \<and> k \<notin> key ` set rows
             \<and> int (length rows) < maxSize svc \<and> f Create = Some msg)"
  then show "CacheService_set svc f now (Some k) (Some v) rows =
          (Inl (if msg = ''Cache is full'' then Error msg
                else Error (''Failed to set cache value: '' @ msg)), rows)"
    using set_count_rejected [of k f msg svc now v rows]
      set_findByPk_rejected [of k f msg svc now v rows]
      set_update_rejected [of k f rows msg svc now v]
      set_create_rejected [of k f rows svc msg now v]
    by blast
next
  assume "k \<noteq> [] \<and> f Count = None \<and> f FindByPk = None \<and> k \<notin> key ` set rows
        \<and> maxSize svc \<le> int (length rows)"
  then show "CacheService_set svc f now (Some k) (Some v) rows = (Inl (Error ''Cache is full''), rows)"
    by (intro set_capacity_passes) simp_all
qed

theorem errors_surfaced_by_message_witness:
  "CacheService_set service2 (fault_on Count ''SQLITE_BUSY'') 0 (Some []) (Some JNull) table_ab =
     (Inl (Error ''Failed to set cache value: Key is required''), table_ab)
   \<and> CacheService_set service2 (fault_on Count ''SQLITE_BUSY'') 0 (Some ''k'') None table_ab =
     (Inl (Error ''Failed to set cache value: Value is required''), table_ab)
   \<and> CacheService_cleanupOldEntries (fault_on Count ''SQLITE_BUSY'') 0 (Some 0) table_ab =
     (Inl (Error ''Failed to cleanup old entries: Max age must be positive''), table_ab)
   \<and> CacheService_set service2 (fault_on Count ''SQLITE_BUSY'') 0 (Some ''k'') (Some JNull) table_ab =
     (Inl (Error ''Failed to set cache value: SQLITE_BUSY''), table_ab)
   \<and> CacheService_set service2 (fault_on Update ''SQLITE_BUSY'') 0 (Some ''k'') (Some JNull) table_ab =
     (Inl (Error ''Cache is full''), table_ab)"
  using errors_surfaced_by_message [where k_opt = "Some []" and svc = service2
      and f = "fault_on Count ''SQLITE_BUSY''" and now = 0 and v_opt = "Some JNull"
      and rows = table_ab and k = "''k''" and m = 0 and msg = "''SQLITE_BUSY''" and v = JNull]
    errors_surfaced_by_message [where k_opt = "Some []" and svc = service2
      and f = "fault_on Update ''SQLITE_BUSY''" and now = 0 and v_opt = "Some JNull"
      and rows = table_ab and k = "''k''" and m = 0 and msg = "''SQLITE_BUSY''" and v = JNull]
  by (simp add: fault_on_def table_ab_def service2_def)

end
